theory Spec2Isabelle
  imports Main "HOL-Library.AList" "HOL-Library.List_Lexorder"
begin

section \<open>Text, errors and tables\<close>

text \<open>
  A Python \<open>str\<close> is a sequence of Unicode code points; \<open>len\<close>, indexing, slicing,
  iteration and comparison all work on code points. A code point is modelled as a
  natural number and a string as a list of them. The ASCII letters used in codes are
  the code points 97 (\<open>a\<close>) to 122 (\<open>z\<close>).
\<close>

type_synonym uchar = nat
type_synonym ustr = "uchar list"

datatype py_error = IndexError | EOFError | UnicodeEncodeError

text \<open>
  The character table \<open>danzi\<close> is a \<open>Dict[str, str]\<close>: its keys are strings, and
  \<open>generate_word_code\<close> looks up the one-character strings that iterating a word yields.
\<close>

type_synonym danzi_table = "ustr \<rightharpoonup> ustr"

section \<open>generate_word_code\<close>

text \<open>
  The loop \<open>for char in word\<close> with its two accumulators; both grow by \<open>append\<close>.
\<close>

fun lookup_chars :: "ustr \<Rightarrow> danzi_table \<Rightarrow> ustr list \<Rightarrow> ustr list \<Rightarrow> ustr list \<times> ustr list" where
  "lookup_chars [] danzi char_codes missing_chars = (char_codes, missing_chars)"
| "lookup_chars (char # rest) danzi char_codes missing_chars =
     (case danzi [char] of
        Some code \<Rightarrow> lookup_chars rest danzi (char_codes @ [code]) missing_chars
      | None \<Rightarrow> lookup_chars rest danzi char_codes (missing_chars @ [[char]]))"

text \<open>\<open>s[0]\<close> on a string: the one-character string, or \<open>IndexError\<close> when \<open>s\<close> is empty.\<close>

definition first_letter :: "ustr \<Rightarrow> py_error + ustr" where
  "first_letter s = (case s of [] \<Rightarrow> Inl IndexError | c # _ \<Rightarrow> Inr [c])"

text \<open>\<open>a + b\<close> on two string expressions either of which may raise.\<close>

definition cat :: "py_error + ustr \<Rightarrow> py_error + ustr \<Rightarrow> py_error + ustr" where
  "cat a b =
     (case a of Inl e \<Rightarrow> Inl e
      | Inr x \<Rightarrow> (case b of Inl e \<Rightarrow> Inl e | Inr y \<Rightarrow> Inr (x @ y)))"

definition returns :: "py_error + ustr \<Rightarrow> py_error + (ustr option \<times> ustr list)" where
  "returns r = (case r of Inl e \<Rightarrow> Inl e | Inr code \<Rightarrow> Inr (Some code, []))"

definition generate_word_code :: "ustr \<Rightarrow> danzi_table \<Rightarrow> py_error + (ustr option \<times> ustr list)" where
  "generate_word_code word danzi =
     (let (char_codes, missing_chars) = lookup_chars word danzi [] [];
          word_len = length char_codes
      in if missing_chars \<noteq> [] then Inr (None, missing_chars)
         else if word_len = 1 then Inr (Some (char_codes ! 0), [])
         else if word_len = 2 then
           Inr (Some (take 2 (char_codes ! 0) @ take 2 (char_codes ! 1)), [])
         else if word_len = 3 then
           returns (cat (cat (first_letter (char_codes ! 0)) (first_letter (char_codes ! 1)))
                        (Inr (take 2 (char_codes ! 2))))
         else if word_len = 4 then
           returns (cat (cat (cat (first_letter (char_codes ! 0)) (first_letter (char_codes ! 1)))
                             (first_letter (char_codes ! 2)))
                        (first_letter (char_codes ! 3)))
         else if word_len > 4 then
           returns (cat (cat (cat (first_letter (char_codes ! 0)) (first_letter (char_codes ! 1)))
                             (first_letter (char_codes ! 2)))
                        (first_letter (last char_codes)))
         else Inr (None, []))"

section \<open>Python text primitives\<close>

text \<open>
  The code points for which \<open>str.isspace\<close> holds; \<open>str.strip()\<close> and \<open>str.split()\<close>
  without arguments treat exactly these as whitespace: U+0009..U+000D, U+001C..U+001F,
  U+0020, U+0085, U+00A0, U+1680, U+2000..U+200A, U+2028, U+2029, U+202F, U+205F, U+3000.
\<close>

definition is_space :: "uchar \<Rightarrow> bool" where
  "is_space c \<longleftrightarrow>
     (9 \<le> c \<and> c \<le> 13) \<or> (28 \<le> c \<and> c \<le> 32) \<or> c = 133 \<or> c = 160 \<or> c = 5760 \<or>
     (8192 \<le> c \<and> c \<le> 8202) \<or> c = 8232 \<or> c = 8233 \<or> c = 8239 \<or> c = 8287 \<or> c = 12288"

text \<open>
  \<open>s.split(sep)\<close> for a one-character separator: one more field than there are
  separators, empty fields kept. The separator is given as a predicate so that the same
  function serves \<open>s.split()\<close>, which splits at whitespace and drops the empty fields.
\<close>

fun split_on :: "(uchar \<Rightarrow> bool) \<Rightarrow> ustr \<Rightarrow> ustr list" where
  "split_on sep [] = [[]]"
| "split_on sep (c # cs) =
     (if sep c then [] # split_on sep cs
      else (case split_on sep cs of [] \<Rightarrow> [[c]] | w # ws \<Rightarrow> (c # w) # ws))"

definition split_ws :: "ustr \<Rightarrow> ustr list" where
  "split_ws s = filter (\<lambda>w. w \<noteq> []) (split_on is_space s)"

definition strip :: "ustr \<Rightarrow> ustr" where
  "strip s = rev (dropWhile is_space (rev (dropWhile is_space s)))"

text \<open>\<open>' '.join(words)\<close>.\<close>

fun join_sp :: "ustr list \<Rightarrow> ustr" where
  "join_sp [] = []"
| "join_sp [w] = w"
| "join_sp (w # ws) = w @ [32] @ join_sp ws"

text \<open>
  \<open>for line in f\<close> on a file opened in text mode with the default \<open>newline=None\<close>:
  \<open>\n\<close>, \<open>\r\n\<close> and a lone \<open>\r\<close> each end a line and are handed over as \<open>\n\<close>;
  a last line without terminator is yielded as it is. Code point 10 is \<open>\n\<close>, 13 is \<open>\r\<close>.
\<close>

fun file_lines :: "ustr \<Rightarrow> ustr list" where
  "file_lines [] = []"
| "file_lines (c # cs) =
     (if c = 10 then [10] # file_lines cs
      else if c = 13 then
        (case cs of
           [] \<Rightarrow> [[10]]
         | d # ds \<Rightarrow> if d = 10 then [10] # file_lines ds else [10] # file_lines cs)
      else (case file_lines cs of [] \<Rightarrow> [[c]] | l # ls \<Rightarrow> (c # l) # ls))"

text \<open>\<open>[line.strip() for line in f if line.strip()]\<close>.\<close>

definition read_lines :: "ustr \<Rightarrow> ustr list" where
  "read_lines text = map strip (filter (\<lambda>line. strip line \<noteq> []) (file_lines text))"

section \<open>The word dictionary and its file\<close>

text \<open>
  \<open>ciku_structured\<close> is a \<open>Dict[str, List[str]]\<close>. A Python dict keeps its keys unique
  and in insertion order; it is modelled as an association list with \<open>AList.update\<close> for
  \<open>data[code] = words\<close> (replace in place, or append a new key) and \<open>map_of\<close> for lookup.
  Two dicts are equal in Python when they hold the same keys with the same values,
  whatever the insertion order: equality of \<open>map_of\<close>.
\<close>

type_synonym ciku_dict = "(ustr \<times> ustr list) list"

text \<open>
  \<open>load_ciku_structured\<close>; the argument is the decoded content of the file, \<open>None\<close>
  when the file does not exist.
\<close>

definition load_line :: "ustr \<Rightarrow> ciku_dict \<Rightarrow> ciku_dict" where
  "load_line line data =
     (let parts = split_ws (strip line)
      in if length parts \<ge> 2 then AList.update (parts ! 0) (drop 1 parts) data else data)"

definition load_ciku_structured :: "ustr option \<Rightarrow> ciku_dict" where
  "load_ciku_structured file =
     (case file of None \<Rightarrow> [] | Some text \<Rightarrow> fold load_line (file_lines text) [])"

text \<open>
  The file is opened with \<open>encoding='utf-8'\<close>. The codec encodes every code point up
  to U+10FFFF except the surrogates U+D800..U+DFFF, on which \<open>f.write\<close> raises
  \<open>UnicodeEncodeError\<close>; a Python \<open>str\<close> holds no code point above U+10FFFF.
  Decoding the bytes of an encoded text gives the text back, so a file written and read
  in UTF-8 is modelled by its text.
\<close>

definition utf8_encodable :: "uchar \<Rightarrow> bool" where
  "utf8_encodable c \<longleftrightarrow> c < 55296 \<or> (57343 < c \<and> c \<le> 1114111)"

text \<open>
  \<open>write_ciku_structured\<close>: the text that the file holds after the call, and the
  exception that the \<open>except\<close> clause caught and logged, if any. Opening the file for
  writing empties it. \<open>sorted(data.items())\<close> orders the items by code (the keys of a
  dict are distinct, so the comparison of two items is decided by their codes); strings
  compare lexicographically by code point. Each \<open>f.write\<close> encodes its whole line
  first: when a line cannot be encoded nothing of it is written, the loop is left, and
  the file keeps the lines written before.
\<close>

definition write_line :: "ustr \<times> ustr list \<Rightarrow> ustr" where
  "write_line item = (case item of (code, words) \<Rightarrow> code @ [32] @ join_sp words @ [10])"

fun write_items :: "(ustr \<times> ustr list) list \<Rightarrow> ustr \<Rightarrow> ustr \<times> py_error option" where
  "write_items [] written = (written, None)"
| "write_items ((code, words) # rest) written =
     (if words \<noteq> [] then
        (if list_all utf8_encodable (write_line (code, words))
         then write_items rest (written @ write_line (code, words))
         else (written, Some UnicodeEncodeError))
      else write_items rest written)"

definition write_ciku_structured :: "ciku_dict \<Rightarrow> ustr \<times> py_error option" where
  "write_ciku_structured data = write_items (sort_key fst data) []"

text \<open>
  The dictionaries of the round trip: every code and every word is a non-empty string
  without whitespace, and every list has a word.
\<close>

definition plain_token :: "ustr \<Rightarrow> bool" where
  "plain_token s \<longleftrightarrow> s \<noteq> [] \<and> list_all (\<lambda>c. \<not> is_space c) s"

definition plain_item :: "ustr \<times> ustr list \<Rightarrow> bool" where
  "plain_item item \<longleftrightarrow>
     (case item of (code, words) \<Rightarrow> plain_token code \<and> words \<noteq> [] \<and> list_all plain_token words)"

text \<open>The items whose code and words hold only code points that UTF-8 encodes.\<close>

definition encodable_item :: "ustr \<times> ustr list \<Rightarrow> bool" where
  "encodable_item item \<longleftrightarrow>
     (case item of (code, words) \<Rightarrow>
        list_all utf8_encodable code \<and> list_all (list_all utf8_encodable) words)"

section \<open>analyze_dict_file\<close>

datatype delimiter = Space | Tab
datatype format = Unknown | CodeFirst | WordFirst
datatype structure_kind = Single | Multi

record analysis =
  delimiter :: delimiter
  format :: format
  struct :: structure_kind
  entries :: "(ustr \<times> ustr) list"

text \<open>
  \<open>str.isalpha\<close> and \<open>str.islower\<close> read the Unicode character database of the
  interpreter, which is taken as a parameter: for each code point, whether it is
  alphabetic, lowercase, uppercase or titlecase.
  \<open>s.isalpha()\<close> holds when \<open>s\<close> is not empty and all its characters are alphabetic.
  \<open>s.islower()\<close> holds when all cased characters of \<open>s\<close> are lowercase and there is
  at least one cased character: no character is uppercase or titlecase, and some
  character is lowercase. Characters without case do not count either way.
\<close>

record ucd =
  alphabetic :: "uchar \<Rightarrow> bool"
  lowercase :: "uchar \<Rightarrow> bool"
  uppercase :: "uchar \<Rightarrow> bool"
  titlecase :: "uchar \<Rightarrow> bool"

definition isalpha :: "ucd \<Rightarrow> ustr \<Rightarrow> bool" where
  "isalpha u s \<longleftrightarrow> s \<noteq> [] \<and> list_all (alphabetic u) s"

definition islower :: "ucd \<Rightarrow> ustr \<Rightarrow> bool" where
  "islower u s \<longleftrightarrow>
     list_all (\<lambda>c. \<not> (uppercase u c \<or> titlecase u c)) s \<and> list_ex (lowercase u) s"

definition is_code :: "ucd \<Rightarrow> ustr \<Rightarrow> bool" where
  "is_code u s \<longleftrightarrow> s \<noteq> [] \<and> isalpha u s \<and> islower u s"

text \<open>
  The database on the ASCII letters and on the CJK ideographs U+4E00..U+9FA5, for
  evaluating examples; no example below uses a code point outside these ranges and the
  ASCII space, tab and line feed, which are neither alphabetic nor cased.
\<close>

definition ucd_sample :: ucd where
  "ucd_sample =
     \<lparr> alphabetic = (\<lambda>c. (65 \<le> c \<and> c \<le> 90) \<or> (97 \<le> c \<and> c \<le> 122) \<or> (19968 \<le> c \<and> c \<le> 40869)),
       lowercase = (\<lambda>c. 97 \<le> c \<and> c \<le> 122),
       uppercase = (\<lambda>c. 65 \<le> c \<and> c \<le> 90),
       titlecase = (\<lambda>c. False) \<rparr>"

text \<open>\<open>line.split('\t' if analysis["delimiter"] == "tab" else ' ')\<close>.\<close>

definition split_fields :: "delimiter \<Rightarrow> ustr \<Rightarrow> ustr list" where
  "split_fields d line = split_on (\<lambda>c. c = (if d = Tab then 9 else 32)) line"

text \<open>The voting loop over \<open>lines[:100]\<close>, with the two counters.\<close>

fun count_votes :: "ucd \<Rightarrow> delimiter \<Rightarrow> ustr list \<Rightarrow> nat \<times> nat \<Rightarrow> nat \<times> nat" where
  "count_votes u d [] votes = votes"
| "count_votes u d (line # rest) (code_first_votes, word_first_votes) =
     (let parts = split_fields d line
      in if length parts < 2 then count_votes u d rest (code_first_votes, word_first_votes)
         else if is_code u (parts ! 0) \<and> \<not> is_code u (parts ! 1)
           then count_votes u d rest (code_first_votes + 1, word_first_votes)
         else if \<not> is_code u (parts ! 0) \<and> is_code u (parts ! 1)
           then count_votes u d rest (code_first_votes, word_first_votes + 1)
         else count_votes u d rest (code_first_votes, word_first_votes))"

text \<open>The second loop, over all lines, once the format is decided.\<close>

fun scan_lines ::
  "ucd \<Rightarrow> delimiter \<Rightarrow> format \<Rightarrow> ustr list \<Rightarrow> structure_kind \<Rightarrow> (ustr \<times> ustr) list
     \<Rightarrow> structure_kind \<times> (ustr \<times> ustr) list" where
  "scan_lines u d f [] st all_entries = (st, all_entries)"
| "scan_lines u d f (line # rest) st all_entries =
     (let parts = split_fields d line
      in if length parts < 2 then scan_lines u d f rest st all_entries
         else if f = CodeFirst then
           (let code = parts ! 0; terms = drop 1 parts
            in scan_lines u d f rest
                 (if length terms > 1 then Multi else st)
                 (if is_code u code then all_entries @ map (\<lambda>term. (term, code)) terms
                  else all_entries))
         else if length parts = 2 \<and> is_code u (parts ! 1) then
           scan_lines u d f rest st (all_entries @ [(parts ! 0, parts ! 1)])
         else scan_lines u d f rest st all_entries)"

definition detect_delimiter :: "ustr list \<Rightarrow> delimiter" where
  "detect_delimiter lines = (case lines of [] \<Rightarrow> Space | first # _ \<Rightarrow> if 9 \<in> set first then Tab else Space)"

definition sample_votes :: "ucd \<Rightarrow> ustr list \<Rightarrow> nat \<times> nat" where
  "sample_votes u lines = count_votes u (detect_delimiter lines) (take 100 lines) (0, 0)"

text \<open>
  \<open>analyze_dict_file\<close>. The argument is the text that the first successful encoding of
  \<open>encodings_to_try\<close> decodes the file to, \<open>None\<close> when none of them does; the byte
  level is not modelled. The result \<open>None\<close> is the source's \<open>return None\<close>.
\<close>

definition analyze_dict_file :: "ucd \<Rightarrow> ustr option \<Rightarrow> analysis option" where
  "analyze_dict_file u decoded =
     (case decoded of
        None \<Rightarrow> None
      | Some text \<Rightarrow>
          (let lines = read_lines text
           in if lines = [] then None
              else
                (let d = detect_delimiter lines;
                     (code_first_votes, word_first_votes) = sample_votes u lines;
                     f = (if code_first_votes > word_first_votes then CodeFirst
                          else if word_first_votes > code_first_votes then WordFirst
                          else Unknown)
                 in if f = Unknown then
                      Some \<lparr> delimiter = d, format = Unknown, struct = Single, entries = [] \<rparr>
                    else
                      (let (st, all_entries) = scan_lines u d f lines Single []
                       in Some \<lparr> delimiter = d, format = f, struct = st,
                                 entries = all_entries \<rparr>))))"

text \<open>
  What \<open>check_for_updates\<close> does with one file: it skips the file, with the error
  message that the file is empty or its format cannot be recognised, when the analysis is
  \<open>None\<close> or has the format \<open>unknown\<close>; otherwise it runs \<open>perform_upgrade\<close> on it.
\<close>

datatype outcome = Skipped | Upgraded analysis

definition check_file :: "ucd \<Rightarrow> ustr option \<Rightarrow> outcome" where
  "check_file u decoded =
     (case analyze_dict_file u decoded of
        None \<Rightarrow> Skipped
      | Some a \<Rightarrow> if format a = Unknown then Skipped else Upgraded a)"

text \<open>
  What the \<open>word_first\<close> branch of the second loop appends for one line: the pair of
  field 0 as the term and field 1 as the code when the line has exactly two fields and
  field 1 passes \<open>is_code\<close>, nothing otherwise.
\<close>

definition word_first_entry :: "ucd \<Rightarrow> delimiter \<Rightarrow> ustr \<Rightarrow> (ustr \<times> ustr) list" where
  "word_first_entry u d line =
     (let parts = split_fields d line
      in if length parts = 2 \<and> is_code u (parts ! 1) then [(parts ! 0, parts ! 1)] else [])"

section \<open>perform_upgrade\<close>

definition danzi_entries :: "(ustr \<times> ustr) list \<Rightarrow> (ustr \<times> ustr) list" where
  "danzi_entries all_entries = filter (\<lambda>(term, code). length term = 1) all_entries"

text \<open>The loop that fills \<open>new_danzi_dict\<close>: a later entry overwrites an earlier one.\<close>

fun fill_danzi :: "(ustr \<times> ustr) list \<Rightarrow> (ustr \<times> ustr) list \<Rightarrow> (ustr \<times> ustr) list" where
  "fill_danzi [] new_danzi_dict = new_danzi_dict"
| "fill_danzi ((term, code) # rest) new_danzi_dict =
     fill_danzi rest
       (if length code > 1 then AList.update term code new_danzi_dict else new_danzi_dict)"

definition new_danzi_dict :: "(ustr \<times> ustr) list \<Rightarrow> (ustr \<times> ustr) list" where
  "new_danzi_dict all_entries = fill_danzi (danzi_entries all_entries) []"

text \<open>
  The loop that fills \<open>new_ciku_structured\<close>: a code not yet present gets an empty list,
  then the term is appended unless the list has it. Afterwards every list is sorted.
\<close>

definition add_entry :: "ustr \<Rightarrow> ustr \<Rightarrow> ciku_dict \<Rightarrow> ciku_dict" where
  "add_entry term code data =
     (let data1 = (if map_of data code = None then AList.update code [] data else data);
          words = (case map_of data1 code of None \<Rightarrow> [] | Some ws \<Rightarrow> ws)
      in if term \<notin> set words then AList.update code (words @ [term]) data1 else data1)"

fun fill_ciku :: "(ustr \<times> ustr) list \<Rightarrow> ciku_dict \<Rightarrow> ciku_dict" where
  "fill_ciku [] data = data"
| "fill_ciku ((term, code) # rest) data = fill_ciku rest (add_entry term code data)"

definition new_ciku_structured :: "(ustr \<times> ustr) list \<Rightarrow> ciku_dict" where
  "new_ciku_structured all_entries =
     map (\<lambda>(code, words). (code, sort words)) (fill_ciku all_entries [])"

text \<open>
  \<open>perform_upgrade\<close> with the operator's two answers: what replaces the character table
  and what is written as the word dictionary, \<open>None\<close> where nothing is written.
\<close>

definition perform_upgrade ::
  "(ustr \<times> ustr) list \<Rightarrow> bool \<Rightarrow> bool \<Rightarrow> (ustr \<times> ustr) list option \<times> ustr option" where
  "perform_upgrade all_entries replace_danzi replace_ciku =
     ((if danzi_entries all_entries \<noteq> [] \<and> replace_danzi
       then Some (sort_key fst (new_danzi_dict all_entries)) else None),
      (if all_entries \<noteq> [] \<and> replace_ciku
       then Some (fst (write_ciku_structured (new_ciku_structured all_entries))) else None))"

text \<open>
  Two notions for stating what the loop computes: the list a dictionary holds for a
  code (empty when the code is absent), and appending a term to a list that lacks it.
\<close>

definition words_of :: "ciku_dict \<Rightarrow> ustr \<Rightarrow> ustr list" where
  "words_of data code = (case map_of data code of None \<Rightarrow> [] | Some ws \<Rightarrow> ws)"

definition append_new :: "ustr \<Rightarrow> ustr list \<Rightarrow> ustr list" where
  "append_new term words = (if term \<notin> set words then words @ [term] else words)"

section \<open>Entry, editing and batch entry\<close>

text \<open>
  The insertion at the end of \<open>entry_mode\<close>: a new code gets the one-word list, a known
  code gets the word appended unless its list has the word.
\<close>

definition entry_insert :: "ustr \<Rightarrow> ustr \<Rightarrow> ciku_dict \<Rightarrow> ciku_dict" where
  "entry_insert code word ciku_structured =
     (case map_of ciku_structured code of
        None \<Rightarrow> AList.update code [word] ciku_structured
      | Some words \<Rightarrow>
          if word \<in> set words then ciku_structured
          else AList.update code (words @ [word]) ciku_structured)"

text \<open>
  The two edits of \<open>edit_mode\<close> on the list of one code, with the number the operator
  typed (1-based): \<open>None\<close> is the rejected number.
\<close>

definition edit_delete :: "int \<Rightarrow> ustr list \<Rightarrow> ustr list option" where
  "edit_delete del_num word_list =
     (let del_idx = del_num - 1
      in if 0 \<le> del_idx \<and> del_idx < int (length word_list)
         then Some (take (nat del_idx) word_list @ drop (Suc (nat del_idx)) word_list)
         else None)"

definition edit_move :: "int \<Rightarrow> int \<Rightarrow> ustr list \<Rightarrow> ustr list option" where
  "edit_move move_num new_pos word_list =
     (let old_idx = move_num - 1; new_idx = new_pos - 1
      in if \<not> (0 \<le> old_idx \<and> old_idx < int (length word_list)) then None
         else if \<not> (0 \<le> new_idx \<and> new_idx < int (length word_list)) then None
         else
           (let word_to_move = word_list ! nat old_idx;
                popped = take (nat old_idx) word_list @ drop (Suc (nat old_idx)) word_list
            in Some (take (nat new_idx) popped @ [word_to_move] @ drop (nat new_idx) popped)))"

text \<open>
  The check on a code typed by the operator:
  \<open>not new_char_code or not all('a' <= c <= 'z' for c in new_char_code)\<close> rejects it.
\<close>

definition valid_char_code :: "ustr \<Rightarrow> bool" where
  "valid_char_code new_char_code \<longleftrightarrow>
     new_char_code \<noteq> [] \<and> list_all (\<lambda>c. 97 \<le> c \<and> c \<le> 122) new_char_code"

text \<open>
  The loop \<open>while missing_chars\<close> of \<open>batch_entry_mode\<close>. Each round reads one answer
  of the operator; the answers still to come are a list, and \<open>input\<close> raises
  \<open>EOFError\<close> when there is none. The result is the generated code, the character table
  and the answers left. Console output and the lines appended to the character file are
  not part of the state.
\<close>

fun fill_missing ::
  "ustr \<Rightarrow> danzi_table \<Rightarrow> ustr option \<Rightarrow> ustr list \<Rightarrow> ustr list
     \<Rightarrow> py_error + (ustr option \<times> danzi_table \<times> ustr list)" where
  "fill_missing word danzi generated_code [] inputs = Inr (generated_code, danzi, inputs)"
| "fill_missing word danzi generated_code (missing_char # others) [] = Inl EOFError"
| "fill_missing word danzi generated_code (missing_char # others) (new_char_code # inputs) =
     (if \<not> valid_char_code new_char_code then Inr (None, danzi, inputs)
      else
        (case generate_word_code word (danzi(missing_char \<mapsto> new_char_code)) of
           Inl e \<Rightarrow> Inl e
         | Inr (generated_code', missing_chars') \<Rightarrow>
             fill_missing word (danzi(missing_char \<mapsto> new_char_code))
               generated_code' missing_chars' inputs))"

text \<open>
  The loop \<open>for word in words_to_add\<close>. \<open>ciku_flat\<close> is computed once, before the
  loop, and passed along unchanged.
\<close>

fun batch_loop ::
  "ustr list \<Rightarrow> ustr set \<Rightarrow> ciku_dict \<Rightarrow> danzi_table \<Rightarrow> ustr list \<Rightarrow> nat
     \<Rightarrow> py_error + (ciku_dict \<times> danzi_table \<times> ustr list \<times> nat)" where
  "batch_loop [] ciku_flat ciku_structured danzi inputs new_word_count =
     Inr (ciku_structured, danzi, inputs, new_word_count)"
| "batch_loop (word # rest) ciku_flat ciku_structured danzi inputs new_word_count =
     (if word \<in> ciku_flat
      then batch_loop rest ciku_flat ciku_structured danzi inputs new_word_count
      else
        (case generate_word_code word danzi of
           Inl e \<Rightarrow> Inl e
         | Inr (generated_code, missing_chars) \<Rightarrow>
             (case fill_missing word danzi generated_code missing_chars inputs of
                Inl e \<Rightarrow> Inl e
              | Inr (generated_code', danzi', inputs') \<Rightarrow>
                  (case generated_code' of
                     None \<Rightarrow> batch_loop rest ciku_flat ciku_structured danzi' inputs' new_word_count
                   | Some code \<Rightarrow>
                       if code = [] then
                         batch_loop rest ciku_flat ciku_structured danzi' inputs' new_word_count
                       else
                         (let ciku1 = (if map_of ciku_structured code = None
                                       then AList.update code [] ciku_structured
                                       else ciku_structured);
                              words = (case map_of ciku1 code of None \<Rightarrow> [] | Some ws \<Rightarrow> ws)
                          in batch_loop rest ciku_flat
                               (AList.update code (words @ [word]) ciku1)
                               danzi' inputs' (new_word_count + 1))))))"

text \<open>
  \<open>batch_entry_mode\<close> on the text of the batch file: the dictionary, the character
  table, the answers left and the number of words added.
\<close>

definition batch_entry_mode ::
  "ustr \<Rightarrow> ciku_dict \<Rightarrow> danzi_table \<Rightarrow> ustr list
     \<Rightarrow> py_error + (ciku_dict \<times> danzi_table \<times> ustr list \<times> nat)" where
  "batch_entry_mode batch_text ciku_structured danzi inputs =
     (let words_to_add = read_lines batch_text
      in if words_to_add = [] then Inr (ciku_structured, danzi, inputs, 0)
         else batch_loop words_to_add (set (concat (map snd ciku_structured)))
                ciku_structured danzi inputs 0)"

text \<open>The invariant of the word dictionary: no word twice in the list of one code.\<close>

definition no_duplicates :: "ciku_dict \<Rightarrow> bool" where
  "no_duplicates ciku_structured \<longleftrightarrow> list_all (\<lambda>(code, words). distinct words) ciku_structured"

section \<open>Properties of generate_word_code\<close>

lemma lookup_chars_eq:
  "lookup_chars word danzi char_codes missing_chars =
     (char_codes @ map (\<lambda>c. the (danzi [c])) (filter (\<lambda>c. danzi [c] \<noteq> None) word),
      missing_chars @ map (\<lambda>c. [c]) (filter (\<lambda>c. danzi [c] = None) word))"
  by (induction word arbitrary: char_codes missing_chars) (auto split: option.splits)

lemma lookup_chars_all_found:
  "map (\<lambda>c. danzi [c]) word = map Some codes \<Longrightarrow>
   lookup_chars word danzi char_codes missing_chars = (char_codes @ codes, missing_chars)"
proof (induction word arbitrary: codes char_codes)
  case Nil
  then show ?case by simp
next
  case (Cons c word)
  then obtain code rest where codes: "codes = code # rest" by (cases codes) auto
  with Cons.prems have "danzi [c] = Some code" "map (\<lambda>c. danzi [c]) word = map Some rest"
    by simp_all
  with Cons.IH [of rest "char_codes @ [code]"] codes show ?case by simp
qed

lemma lookup_chars_resolved:
  "map (\<lambda>c. danzi [c]) word = map Some codes \<Longrightarrow> lookup_chars word danzi [] [] = (codes, [])"
  using lookup_chars_all_found [of danzi word codes "[]" "[]"] by simp

lemma first_letter_hd: "s \<noteq> [] \<Longrightarrow> first_letter s = Inr [hd s]"
  by (cases s) (simp_all add: first_letter_def)

text \<open>
  Claim C10. For the empty word and any character table, \<open>generate_word_code\<close> returns
  no code together with an empty list of missing characters; and a returned code also
  comes with an empty list, so the list alone does not tell this failure from a success.
\<close>

theorem generate_word_code_empty_word:
  "generate_word_code [] danzi = Inr (None, []) \<and>
   (generate_word_code word danzi' = Inr (Some code, missing) \<longrightarrow> missing = [])"
proof -
  have "generate_word_code [] danzi = Inr (None, [])"
    by (simp add: generate_word_code_def)
  moreover have "missing = []" if "generate_word_code word danzi' = Inr (Some code, missing)"
    using that
    by (auto simp add: generate_word_code_def returns_def Let_def
          split: prod.splits if_splits sum.splits)
  ultimately show ?thesis by blast
qed

text \<open>The empty word on the empty table, and a one-character word that has a code.\<close>

theorem generate_word_code_empty_word_witness:
  "generate_word_code [] Map.empty = Inr (None, []) \<and>
   generate_word_code [20320] (map_of [([20320], [119, 113, 105, 121])])
     = Inr (Some [119, 113, 105, 121], [])"
  using generate_word_code_empty_word
    [of Map.empty "[20320]" "map_of [([20320], [119, 113, 105, 121])]" "[119, 113, 105, 121]" "[]"]
  by (simp add: generate_word_code_def)

text \<open>
  Claim C1. When every character of the word is in the character table, with the codes
  \<open>codes\<close> in the order of the word (codes are not empty, as the table has them),
  \<open>generate_word_code\<close> returns: for a word of length 2, the first two letters of
  \<open>codes[0]\<close> and the first two of \<open>codes[1]\<close>; for length 3, the first letters of
  \<open>codes[0]\<close> and \<open>codes[1]\<close> and the first two of \<open>codes[2]\<close>; for length 4, the
  first letter of each of the four codes; for a longer word, the first letters of
  \<open>codes[0]\<close>, \<open>codes[1]\<close>, \<open>codes[2]\<close> and of the last code.
\<close>

theorem generate_word_code_rule:
  assumes "map (\<lambda>c. danzi [c]) word = map Some codes"
    and "\<forall>code\<in>set codes. code \<noteq> []"
  shows "(length word = 2 \<longrightarrow>
            generate_word_code word danzi =
              Inr (Some (take 2 (codes ! 0) @ take 2 (codes ! 1)), [])) \<and>
         (length word = 3 \<longrightarrow>
            generate_word_code word danzi =
              Inr (Some ([hd (codes ! 0)] @ [hd (codes ! 1)] @ take 2 (codes ! 2)), [])) \<and>
         (length word = 4 \<longrightarrow>
            generate_word_code word danzi =
              Inr (Some ([hd (codes ! 0)] @ [hd (codes ! 1)] @ [hd (codes ! 2)] @ [hd (codes ! 3)]), [])) \<and>
         (length word > 4 \<longrightarrow>
            generate_word_code word danzi =
              Inr (Some ([hd (codes ! 0)] @ [hd (codes ! 1)] @ [hd (codes ! 2)] @ [hd (last codes)]), []))"
proof -
  have len: "length codes = length word"
    using arg_cong [OF assms(1), of length] by simp
  have lk: "lookup_chars word danzi [] [] = (codes, [])"
    by (rule lookup_chars_resolved [OF assms(1)])
  have ne: "\<And>i. i < length codes \<Longrightarrow> first_letter (codes ! i) = Inr [hd (codes ! i)]"
    using assms(2) by (simp add: first_letter_hd)
  have nl: "codes \<noteq> [] \<Longrightarrow> first_letter (last codes) = Inr [hd (last codes)]"
    using assms(2) by (simp add: first_letter_hd)
  have c2: "length word = 2 \<longrightarrow> generate_word_code word danzi =
              Inr (Some (take 2 (codes ! 0) @ take 2 (codes ! 1)), [])"
    using len by (simp add: generate_word_code_def lk)
  have c3: "length word = 3 \<longrightarrow> generate_word_code word danzi =
              Inr (Some ([hd (codes ! 0)] @ [hd (codes ! 1)] @ take 2 (codes ! 2)), [])"
  proof
    assume l: "length word = 3"
    have f: "first_letter (codes ! 0) = Inr [hd (codes ! 0)]"
      "first_letter (codes ! Suc 0) = Inr [hd (codes ! Suc 0)]"
      using l len ne [of 0] ne [of 1] by simp_all
    show "generate_word_code word danzi =
              Inr (Some ([hd (codes ! 0)] @ [hd (codes ! 1)] @ take 2 (codes ! 2)), [])"
      using l len by (simp add: generate_word_code_def lk cat_def returns_def f)
  qed
  have c4: "length word = 4 \<longrightarrow> generate_word_code word danzi =
              Inr (Some ([hd (codes ! 0)] @ [hd (codes ! 1)] @ [hd (codes ! 2)] @ [hd (codes ! 3)]), [])"
  proof
    assume l: "length word = 4"
    have f: "first_letter (codes ! 0) = Inr [hd (codes ! 0)]"
      "first_letter (codes ! Suc 0) = Inr [hd (codes ! Suc 0)]"
      "first_letter (codes ! 2) = Inr [hd (codes ! 2)]"
      "first_letter (codes ! 3) = Inr [hd (codes ! 3)]"
      using l len ne [of 0] ne [of 1] ne [of 2] ne [of 3] by simp_all
    show "generate_word_code word danzi =
              Inr (Some ([hd (codes ! 0)] @ [hd (codes ! 1)] @ [hd (codes ! 2)] @ [hd (codes ! 3)]), [])"
      using l len by (simp add: generate_word_code_def lk cat_def returns_def f)
  qed
  have c5: "length word > 4 \<longrightarrow> generate_word_code word danzi =
              Inr (Some ([hd (codes ! 0)] @ [hd (codes ! 1)] @ [hd (codes ! 2)] @ [hd (last codes)]), [])"
  proof
    assume l: "length word > 4"
    then have wne: "word \<noteq> []" by auto
    with len have cne: "codes \<noteq> []" by auto
    have f: "first_letter (codes ! 0) = Inr [hd (codes ! 0)]"
      "first_letter (codes ! Suc 0) = Inr [hd (codes ! Suc 0)]"
      "first_letter (codes ! 2) = Inr [hd (codes ! 2)]"
      "first_letter (last codes) = Inr [hd (last codes)]"
      using l len wne ne [of 0] ne [of 1] ne [of 2] nl [OF cne] by simp_all
    show "generate_word_code word danzi =
              Inr (Some ([hd (codes ! 0)] @ [hd (codes ! 1)] @ [hd (codes ! 2)] @ [hd (last codes)]), [])"
      using l len by (simp add: generate_word_code_def lk cat_def returns_def f)
  qed
  from c2 c3 c4 c5 show ?thesis by blast
qed

text \<open>A five-character word: the fourth character's code is skipped.\<close>

theorem generate_word_code_rule_witness:
  "generate_word_code [20013, 21326, 20154, 27665, 20849]
     (map_of [([20013], [107, 104, 107]), ([21326], [119, 120, 102, 106]), ([20154], [119, 119, 119, 119]),
              ([27665], [110, 97, 118]), ([20849], [97, 119, 117])])
     = Inr (Some [107, 119, 119, 97], [])"
  using generate_word_code_rule
    [of "map_of [([20013], [107, 104, 107]), ([21326], [119, 120, 102, 106]), ([20154], [119, 119, 119, 119]),
              ([27665], [110, 97, 118]), ([20849], [97, 119, 117])]"
        "[20013, 21326, 20154, 27665, 20849]"
        "[[107, 104, 107], [119, 120, 102, 106], [119, 119, 119, 119], [110, 97, 118], [97, 119, 117]]"]
  by simp

text \<open>
  Claim C2. When at least one character of the word is not in the character table,
  \<open>generate_word_code\<close> returns no code and the list of all the missing characters, in
  the order in which they occur in the word.
\<close>

theorem generate_word_code_missing:
  assumes "\<exists>c\<in>set word. danzi [c] = None"
  shows "generate_word_code word danzi =
           Inr (None, map (\<lambda>c. [c]) (filter (\<lambda>c. danzi [c] = None) word))"
proof -
  from assms have "filter (\<lambda>c. danzi [c] = None) word \<noteq> []"
    by (simp add: filter_empty_conv)
  then show ?thesis
    by (simp add: generate_word_code_def lookup_chars_eq)
qed

text \<open>Two missing characters among four: both are reported, in order.\<close>

theorem generate_word_code_missing_witness:
  "(\<exists>c\<in>set [20320, 97, 22909, 98 :: uchar]. map_of [([20320], [119, 113]), ([22909], [118, 98])] [c] = None) \<and>
   generate_word_code [20320, 97, 22909, 98] (map_of [([20320], [119, 113]), ([22909], [118, 98])])
     = Inr (None, [[97], [98]])"
  using generate_word_code_missing
    [of "[20320, 97, 22909, 98]" "map_of [([20320], [119, 113]), ([22909], [118, 98])]"]
  by simp

text \<open>
  Claim C3 as stated (a returned code never has more than 4 letters) fails on a word of
  one character, whose code is returned whole: here a table code of 5 letters.
\<close>

theorem generate_word_code_length_counterexample:
  "generate_word_code [20320] (map_of [([20320], [119, 113, 105, 121, 103])])
     = Inr (Some [119, 113, 105, 121, 103], []) \<and>
   \<not> length [119, 113, 105, 121, 103 :: nat] \<le> 4"
  by (simp add: generate_word_code_def)

text \<open>
  Claim C3, amended. Whenever \<open>generate_word_code\<close> returns a code, the code has at
  most 4 letters if the word does not consist of exactly one character; for a word of
  one character the code is the character's code in the table, unchanged.
\<close>

theorem generate_word_code_length:
  assumes "generate_word_code word danzi = Inr (Some code, missing)"
  shows "(length word \<noteq> 1 \<longrightarrow> length code \<le> 4) \<and>
         (length word = 1 \<longrightarrow> danzi word = Some code)"
proof -
  let ?cs = "map (\<lambda>c. the (danzi [c])) (filter (\<lambda>c. danzi [c] \<noteq> None) word)"
  let ?ms = "map (\<lambda>c. [c]) (filter (\<lambda>c. danzi [c] = None) word)"
  have lk: "lookup_chars word danzi [] [] = (?cs, ?ms)"
    by (simp add: lookup_chars_eq)
  have ms: "?ms = []"
    using assms by (auto simp add: generate_word_code_def lk Let_def split: if_splits)
  then have all: "\<forall>c\<in>set word. danzi [c] \<noteq> None"
    by (simp add: filter_empty_conv)
  then have fw: "filter (\<lambda>c. danzi [c] \<noteq> None) word = word"
    by (induction word) auto
  have len: "length ?cs = length word" by (simp only: fw length_map)
  have fl: "\<And>s r. first_letter s = Inr r \<Longrightarrow> length r = 1"
    by (auto simp add: first_letter_def split: list.splits)
  have short: "length word \<noteq> 1 \<Longrightarrow> length code \<le> 4"
    using assms ms len
    by (auto simp add: generate_word_code_def lk Let_def cat_def returns_def
          dest!: fl split: if_splits sum.splits)
  have one: "length word = 1 \<Longrightarrow> danzi word = Some code"
  proof -
    assume "length word = 1"
    then obtain c where w: "word = [c]" by (cases word) auto
    with all obtain v where v: "danzi [c] = Some v" by auto
    with w assms show ?thesis
      by (simp add: generate_word_code_def)
  qed
  from short one show ?thesis by blast
qed

text \<open>A two-character word with codes of 4 and 3 letters gives a 4-letter code.\<close>

theorem generate_word_code_length_witness:
  "generate_word_code [20320, 22909] (map_of [([20320], [119, 113, 105, 121]), ([22909], [118, 98, 103])])
     = Inr (Some [119, 113, 118, 98], []) \<and> length [119, 113, 118, 98 :: nat] \<le> 4"
  using generate_word_code_length
    [of "[20320, 22909]" "map_of [([20320], [119, 113, 105, 121]), ([22909], [118, 98, 103])]"
        "[119, 113, 118, 98]" "[]"]
  by (simp add: generate_word_code_def)

section \<open>Properties of analyze_dict_file\<close>

text \<open>
  Claim C4. When the sampled lines of a file give as many \<open>code_first\<close> votes as
  \<open>word_first\<close> votes (none on each side included), the file is reported as not
  recognised and skipped, and an analysis, where one is returned, has the format
  \<open>unknown\<close> and no entries.
\<close>

theorem analyze_tie_not_detected:
  assumes "fst (sample_votes u (read_lines text)) = snd (sample_votes u (read_lines text))"
  shows "check_file u (Some text) = Skipped \<and>
         (\<forall>a. analyze_dict_file u (Some text) = Some a \<longrightarrow> format a = Unknown \<and> entries a = [])"
proof -
  obtain cf wf where v: "sample_votes u (read_lines text) = (cf, wf)"
    by (cases "sample_votes u (read_lines text)")
  with assms have eq: "cf = wf" by simp
  show ?thesis
    by (cases "read_lines text = []")
       (simp_all add: check_file_def analyze_dict_file_def Let_def v eq)
qed

text \<open>
  The two lines \<open>ab X\<close> and \<open>X ab\<close>, with \<open>X\<close> the ideograph U+4E2D, give one vote to each side.
\<close>

theorem analyze_tie_not_detected_witness:
  "sample_votes ucd_sample (read_lines [97, 98, 32, 20013, 10, 20013, 32, 97, 98, 10]) = (1, 1) \<and>
   check_file ucd_sample (Some [97, 98, 32, 20013, 10, 20013, 32, 97, 98, 10]) = Skipped \<and>
   analyze_dict_file ucd_sample (Some [97, 98, 32, 20013, 10, 20013, 32, 97, 98, 10])
     = Some \<lparr>delimiter = Space, format = Unknown, struct = Single, entries = []\<rparr>"
  using analyze_tie_not_detected [of ucd_sample "[97, 98, 32, 20013, 10, 20013, 32, 97, 98, 10]"]
  by (simp add: analyze_dict_file_def read_lines_def strip_def is_space_def detect_delimiter_def
        sample_votes_def split_fields_def is_code_def isalpha_def islower_def ucd_sample_def)

text \<open>
  With the format \<open>word_first\<close> the entries are, line by line and in order, what
  \<open>word_first_entry\<close> gives: lines with another number of fields than two add nothing.
\<close>

lemma scan_lines_word_first:
  "scan_lines u d WordFirst lines st acc = (st, acc @ concat (map (word_first_entry u d) lines))"
  by (induction lines arbitrary: acc) (auto simp add: Let_def word_first_entry_def)

lemma analyze_word_first_entries:
  assumes "analyze_dict_file u (Some text) = Some a" and "format a = WordFirst"
  shows "entries a = concat (map (word_first_entry u (delimiter a)) (read_lines text))"
  using assms
  by (auto simp add: analyze_dict_file_def Let_def scan_lines_word_first
        split: if_splits prod.splits)

text \<open>
  Claim C9. With the format \<open>word_first\<close>, a line gives an entry if and only if it
  has exactly two fields and field 1 consists solely of lowercase alphabetic characters.
  The code tests field 1 with \<open>isalpha\<close> and \<open>islower\<close>, and \<open>islower\<close> lets
  characters without case pass: in the file of the two lines \<open>XY ab\<close> and \<open>X aX\<close>,
  with \<open>X\<close> and \<open>Y\<close> the ideographs U+4E2D and U+6587, the second line gives the
  entry with the code \<open>aX\<close>, whose second character is not a lowercase letter; the
  check of \<open>entry_mode\<close> on a typed code rejects the same string.
\<close>

theorem analyze_word_first_uncased_code:
  "analyze_dict_file ucd_sample (Some [20013, 25991, 32, 97, 98, 10, 20013, 32, 97, 20013, 10])
     = Some \<lparr>delimiter = Space, format = WordFirst, struct = Single,
              entries = [([20013, 25991], [97, 98]), ([20013], [97, 20013])]\<rparr> \<and>
   is_code ucd_sample [97, 20013] \<and>
   \<not> list_all (lowercase ucd_sample) [97, 20013] \<and>
   \<not> valid_char_code [97, 20013]"
  by (simp add: analyze_dict_file_def read_lines_def strip_def is_space_def detect_delimiter_def
        sample_votes_def split_fields_def is_code_def isalpha_def islower_def ucd_sample_def
        valid_char_code_def)

section \<open>Properties of the operations on the word dictionary\<close>

lemma list_all_update:
  "list_all P al \<Longrightarrow> P (k, v) \<Longrightarrow> list_all P (AList.update k v al)"
  by (induction al) auto

lemma map_of_list_all:
  "list_all P al \<Longrightarrow> map_of al k = Some v \<Longrightarrow> P (k, v)"
  by (induction al) (auto split: if_splits)

text \<open>The insertion of \<open>entry_mode\<close> keeps the lists free of duplicates.\<close>

lemma entry_insert_no_duplicates:
  "no_duplicates ciku \<Longrightarrow> no_duplicates (entry_insert code word ciku)"
  unfolding no_duplicates_def entry_insert_def
  by (auto split: option.splits intro!: list_all_update dest: map_of_list_all)

lemma pop_distinct:
  "distinct xs \<Longrightarrow> distinct (take i xs @ drop (Suc i) xs)"
  by (simp add: set_take_disj_set_drop_if_distinct)

text \<open>So does the deletion of \<open>edit_mode\<close>.\<close>

lemma edit_delete_distinct:
  "distinct word_list \<Longrightarrow> edit_delete n word_list = Some ws \<Longrightarrow> distinct ws"
  by (auto simp add: edit_delete_def Let_def pop_distinct simp del: distinct_append split: if_splits)

lemma nth_not_in_pop:
  assumes "distinct xs" "i < length xs"
  shows "xs ! i \<notin> set (take i xs @ drop (Suc i) xs)"
proof -
  have "xs = take i xs @ xs ! i # drop (Suc i) xs"
    using assms(2) by (rule id_take_nth_drop)
  then have "distinct (take i xs @ xs ! i # drop (Suc i) xs)"
    using assms(1) by simp
  then show ?thesis by auto
qed

lemma insert_distinct:
  assumes "distinct p" "w \<notin> set p"
  shows "distinct (take j p @ [w] @ drop j p)"
proof -
  have "set (take j p) \<inter> set (drop j p) = {}"
    using assms(1) by (simp add: set_take_disj_set_drop_if_distinct)
  moreover have "distinct (take j p)" "distinct (drop j p)"
    using assms(1) by simp_all
  moreover have "w \<notin> set (take j p)" "w \<notin> set (drop j p)"
    using assms(2) by (auto dest: in_set_takeD in_set_dropD)
  ultimately show ?thesis by auto
qed

text \<open>And so does the move of \<open>edit_mode\<close>.\<close>

lemma edit_move_distinct:
  assumes "distinct word_list" "edit_move m n word_list = Some ws"
  shows "distinct ws"
proof -
  let ?i = "nat (m - 1)" and ?j = "nat (n - 1)"
  let ?p = "take ?i word_list @ drop (Suc ?i) word_list"
  from assms(2) have i: "?i < length word_list"
    and ws: "ws = take ?j ?p @ [word_list ! ?i] @ drop ?j ?p"
    by (auto simp add: edit_move_def Let_def split: if_splits)
  show ?thesis
    unfolding ws
    by (rule insert_distinct) (rule pop_distinct [OF assms(1)], rule nth_not_in_pop [OF assms(1) i])
qed

text \<open>
  Claim C7. Every operation that changes the word dictionary keeps each code's list
  free of duplicates; in particular batch entry never appends a word to a list that has
  it. \<open>batch_entry_mode\<close> tests a word against \<open>ciku_flat\<close>, the words of the
  dictionary as it was before the loop: when the batch file holds the new word
  U+4F60 U+597D on two lines, the second line is not recognised as known and the word is appended
  twice to the list of its code \<open>wqvb\<close>.
\<close>

theorem batch_entry_mode_appends_twice:
  "map_sum id fst
     (batch_entry_mode [20320, 22909, 10, 20320, 22909, 10] []
        (map_of [([20320], [119, 113, 105, 121]), ([22909], [118, 98, 103])]) [])
     = Inr [([119, 113, 118, 98], [[20320, 22909], [20320, 22909]])] \<and>
   no_duplicates [] \<and>
   \<not> no_duplicates [([119, 113, 118, 98], [[20320, 22909], [20320, 22909]])]"
  by (simp add: batch_entry_mode_def read_lines_def strip_def is_space_def generate_word_code_def
        no_duplicates_def)

section \<open>Properties of perform_upgrade\<close>

lemma fill_danzi_map:
  "map_of (fill_danzi es d) = map_of d ++ map_of (rev (filter (\<lambda>(term, code). length code > 1) es))"
proof (induction es arbitrary: d)
  case Nil
  then show ?case by simp
next
  case (Cons e es)
  obtain t c where e: "e = (t, c)" by (cases e)
  show ?case
  proof (cases "length c > 1")
    case True
    have "map_of (fill_danzi (e # es) d) = map_of (fill_danzi es (AList.update t c d))"
      using True e by simp
    also have "\<dots> = (map_of d)(t \<mapsto> c) ++ map_of (rev (filter (\<lambda>(term, code). length code > 1) es))"
      by (simp only: Cons.IH update_conv')
    also have "\<dots> = map_of d ++ map_of (rev (filter (\<lambda>(term, code). length code > 1) (e # es)))"
      using True e by (auto simp add: fun_eq_iff map_add_def split: option.splits)
    finally show ?thesis .
  next
    case False
    then show ?thesis using e by (simp add: Cons.IH)
  qed
qed

lemma filter_danzi_entries:
  "filter (\<lambda>(term, code). length code > 1) (danzi_entries es) =
   filter (\<lambda>(term, code). length term = 1 \<and> length code > 1) es"
  unfolding danzi_entries_def by (induction es) auto

lemma new_danzi_dict_map:
  "map_of (new_danzi_dict es) =
     map_of (rev (filter (\<lambda>(term, code). length term = 1 \<and> length code > 1) es))"
  unfolding new_danzi_dict_def fill_danzi_map filter_danzi_entries by simp

lemma map_of_rev_last:
  "t \<notin> fst ` set after \<Longrightarrow> map_of (rev (before @ (t, c) # after)) t = Some c"
proof -
  assume "t \<notin> fst ` set after"
  then have "map_of (rev after) t = None"
    by (simp add: map_of_eq_None_iff)
  then show ?thesis by (simp add: map_add_def)
qed

text \<open>
  Claim C6. The replacement character table holds exactly the terms of length 1 whose
  code is longer than 1, and a term that occurs several times among those entries is
  mapped to the code of its last occurrence in the import order.
\<close>

theorem new_danzi_dict_table:
  "dom (map_of (new_danzi_dict all_entries)) =
     {term. \<exists>code. (term, code) \<in> set all_entries \<and> length term = 1 \<and> length code > 1} \<and>
   (\<forall>before term code after.
      filter (\<lambda>(term, code). length term = 1 \<and> length code > 1) all_entries
        = before @ (term, code) # after \<and> term \<notin> fst ` set after
      \<longrightarrow> map_of (new_danzi_dict all_entries) term = Some code)"
proof -
  have "dom (map_of (new_danzi_dict all_entries)) =
     {term. \<exists>code. (term, code) \<in> set all_entries \<and> length term = 1 \<and> length code > 1}"
    by (force simp add: new_danzi_dict_map dom_map_of_conv_image_fst)
  moreover have "\<forall>before term code after.
      filter (\<lambda>(term, code). length term = 1 \<and> length code > 1) all_entries
        = before @ (term, code) # after \<and> term \<notin> fst ` set after
      \<longrightarrow> map_of (new_danzi_dict all_entries) term = Some code"
  proof (intro allI impI, elim conjE)
    fix b t c a
    assume eq: "filter (\<lambda>(term, code). length term = 1 \<and> length code > 1) all_entries
        = b @ (t, c) # a" and notin: "t \<notin> fst ` set a"
    show "map_of (new_danzi_dict all_entries) t = Some c"
      unfolding new_danzi_dict_map eq by (rule map_of_rev_last [OF notin])
  qed
  ultimately show ?thesis by blast
qed

text \<open>
  The character \<open>c\<close> three times, with the codes \<open>za\<close>, \<open>z\<close> (too short, dropped)
  and \<open>zb\<close>: the table has \<open>zb\<close>.
\<close>

theorem new_danzi_dict_table_witness:
  "map_of (new_danzi_dict [([99], [122, 97]), ([99], [122]), ([100], [122]), ([99], [122, 98]),
                            ([99, 99], [122, 98]), ([101], [120, 120])]) [99] = Some [122, 98]"
  using new_danzi_dict_table
    [of "[([99], [122, 97]), ([99], [122]), ([100], [122]), ([99], [122, 98]),
          ([99, 99], [122, 98]), ([101], [120, 120])]",
     THEN conjunct2, rule_format,
     of "[([99], [122, 97])]" "[99]" "[122, 98]" "[([101], [120, 120])]"]
  by simp

lemma map_of_add_entry:
  "map_of (add_entry t c d) = (map_of d)(c \<mapsto> append_new t (words_of d c))"
  by (auto simp add: add_entry_def Let_def update_conv' append_new_def words_of_def fun_eq_iff
        split: option.splits)

lemma fill_ciku_map:
  "map_of (fill_ciku es d) c =
     (if map_of d c = None \<and> c \<notin> snd ` set es then None
      else Some (fold append_new (map fst (filter (\<lambda>e. snd e = c) es)) (words_of d c)))"
proof (induction es arbitrary: d)
  case Nil
  then show ?case by (auto simp add: words_of_def)
next
  case (Cons e es)
  obtain t c0 where e: "e = (t, c0)" by (cases e)
  have m: "map_of (add_entry t c0 d) = (map_of d)(c0 \<mapsto> append_new t (words_of d c0))"
    by (rule map_of_add_entry)
  have w: "words_of (add_entry t c0 d) k = (if k = c0 then append_new t (words_of d c0) else words_of d k)" for k
    by (simp add: words_of_def m)
  show ?case
  proof (cases "c = c0")
    case True
    show ?thesis
      unfolding e fill_ciku.simps Cons.IH
      by (simp add: m w True)
  next
    case False
    then show ?thesis
      unfolding e fill_ciku.simps Cons.IH
      by (simp add: m w)
  qed
qed

lemma set_fold_append_new: "set (fold append_new ts ws) = set ws \<union> set ts"
  by (induction ts arbitrary: ws) (auto simp add: append_new_def)

lemma distinct_fold_append_new: "distinct ws \<Longrightarrow> distinct (fold append_new ts ws)"
  by (induction ts arbitrary: ws) (auto simp add: append_new_def)

lemma sort_fold_append_new: "sort (fold append_new ts []) = sort (remdups ts)"
proof (rule sorted_distinct_set_unique)
  show "sorted (sort (fold append_new ts []))" by simp
  show "distinct (sort (fold append_new ts []))" by (simp add: distinct_fold_append_new)
  show "sorted (sort (remdups ts))" by simp
  show "distinct (sort (remdups ts))" by simp
  show "set (sort (fold append_new ts [])) = set (sort (remdups ts))"
    by (simp add: set_fold_append_new)
qed

lemma new_ciku_structured_map:
  "map_of (new_ciku_structured es) c =
     (if c \<in> snd ` set es
      then Some (sort (remdups (map fst (filter (\<lambda>e. snd e = c) es))))
      else None)"
  unfolding new_ciku_structured_def map_of_map
  by (simp add: fill_ciku_map words_of_def sort_fold_append_new)

text \<open>
  Claim C5. The word dictionary built by the merge maps each code of the import to the
  distinct terms paired with it (\<open>remdups\<close>), sorted by code point (\<open>sort\<close>), and
  has no other code; the import \<open>[("ab","xy"),("ab","xy")]\<close> gives the single word
  \<open>ab\<close> under \<open>xy\<close>.
\<close>

theorem new_ciku_structured_lists:
  "map_of (new_ciku_structured all_entries) code =
     (if code \<in> snd ` set all_entries
      then Some (sort (remdups (map fst (filter (\<lambda>(term, c). c = code) all_entries))))
      else None) \<and>
   new_ciku_structured [([97, 98], [120, 121]), ([97, 98], [120, 121])] = [([120, 121], [[97, 98]])]"
proof -
  have h: "(\<lambda>(term, c). c = code) = (\<lambda>e. snd e = code)" by auto
  have "map_of (new_ciku_structured all_entries) code =
     (if code \<in> snd ` set all_entries
      then Some (sort (remdups (map fst (filter (\<lambda>(term, c). c = code) all_entries))))
      else None)"
    unfolding h by (rule new_ciku_structured_map)
  moreover have "new_ciku_structured [([97, 98], [120, 121]), ([97, 98], [120, 121])] = [([120, 121], [[97, 98]])]"
    by (simp add: new_ciku_structured_def add_entry_def)
  ultimately show ?thesis by blast
qed

text \<open>
  The terms \<open>ba\<close>, \<open>ab\<close>, \<open>ba\<close> under \<open>xy\<close>: the list is \<open>ab\<close>, \<open>ba\<close>.
\<close>

theorem new_ciku_structured_lists_witness:
  "map_of (new_ciku_structured [([98, 97], [120, 121]), ([97, 98], [120, 121]), ([98, 97], [120, 121]),
                                 ([99], [122])]) [120, 121] = Some [[97, 98], [98, 97]]"
  using new_ciku_structured_lists
    [of "[([98, 97], [120, 121]), ([97, 98], [120, 121]), ([98, 97], [120, 121]), ([99], [122])]"
        "[120, 121]"]
  by simp

text \<open>The lists written by the merge are free of duplicates.\<close>

lemma add_entry_no_duplicates:
  "no_duplicates d \<Longrightarrow> no_duplicates (add_entry t c d)"
  unfolding no_duplicates_def add_entry_def Let_def
  by (auto simp add: update_conv' split: option.splits if_splits
        intro!: list_all_update dest: map_of_list_all)

lemma fill_ciku_no_duplicates:
  "no_duplicates d \<Longrightarrow> no_duplicates (fill_ciku es d)"
proof (induction es arbitrary: d)
  case Nil
  then show ?case by simp
next
  case (Cons e es)
  obtain t c where e: "e = (t, c)" by (cases e)
  show ?case
    unfolding e fill_ciku.simps
    by (rule Cons.IH) (rule add_entry_no_duplicates [OF Cons.prems])
qed

lemma new_ciku_structured_no_duplicates: "no_duplicates (new_ciku_structured es)"
proof -
  have "no_duplicates (fill_ciku es [])"
    by (rule fill_ciku_no_duplicates) (simp add: no_duplicates_def)
  then show ?thesis
    by (auto simp add: no_duplicates_def new_ciku_structured_def list_all_iff)
qed

section \<open>Writing and loading the word dictionary\<close>

lemma split_on_nonempty: "split_on sep s \<noteq> []"
  by (induction s) (auto split: list.splits)

lemma split_on_no_sep: "\<forall>c\<in>set w. \<not> sep c \<Longrightarrow> split_on sep w = [w]"
  by (induction w) auto

lemma split_on_append:
  "\<forall>c\<in>set w. \<not> sep c \<Longrightarrow> sep x \<Longrightarrow> split_on sep (w @ x # rest) = w # split_on sep rest"
  by (induction w) auto

lemma is_space_32: "is_space 32" and is_space_10: "is_space 10"
  by (simp_all add: is_space_def)

lemma plain_tokenD:
  "plain_token s \<Longrightarrow> s \<noteq> []"
  "plain_token s \<Longrightarrow> c \<in> set s \<Longrightarrow> \<not> is_space c"
  by (auto simp add: plain_token_def list_all_iff)

lemma split_on_join:
  "words \<noteq> [] \<Longrightarrow> list_all plain_token words \<Longrightarrow> split_on is_space (join_sp words) = words"
proof (induction words rule: join_sp.induct)
  case 1
  then show ?case by simp
next
  case (2 w)
  then show ?case by (simp add: split_on_no_sep plain_tokenD)
next
  case (3 w v ws)
  have "split_on is_space (w @ 32 # join_sp (v # ws)) = w # split_on is_space (join_sp (v # ws))"
    using 3 by (intro split_on_append) (auto simp add: is_space_32 plain_tokenD)
  with 3 show ?case by simp
qed

lemma join_sp_last:
  "words \<noteq> [] \<Longrightarrow> list_all plain_token words \<Longrightarrow>
   join_sp words \<noteq> [] \<and> last (join_sp words) = last (last words)"
  by (induction words rule: join_sp.induct) (auto simp add: plain_tokenD)

lemma set_join_sp: "set (join_sp words) \<subseteq> insert 32 (\<Union> (set ` set words))"
  by (induction words rule: join_sp.induct) auto

lemma strip_line:
  assumes "y \<noteq> []" "\<not> is_space (hd y)" "\<not> is_space (last y)"
  shows "strip (y @ [10]) = y"
proof -
  obtain a ys where y: "y = a # ys" using assms(1) by (cases y) auto
  have 1: "dropWhile is_space (y @ [10]) = y @ [10]"
    using assms(2) y by simp
  obtain b zs where r: "rev y = b # zs" using assms(1) by (cases "rev y") auto
  then have "b = last y" by (metis last_rev list.sel(1) rev_rev_ident hd_rev)
  with assms(3) have nb: "\<not> is_space b" by simp
  have 2: "dropWhile is_space (rev y) = rev y"
    unfolding r using nb by simp
  show ?thesis
    unfolding strip_def 1 by (simp add: is_space_10 2)
qed

lemma file_lines_line:
  "\<forall>c\<in>set l. c \<noteq> 10 \<and> c \<noteq> 13 \<Longrightarrow> file_lines (l @ 10 # rest) = (l @ [10]) # file_lines rest"
  by (induction l) auto

lemma write_line_plain:
  assumes "plain_item (code, words)"
  shows "\<exists>y. write_line (code, words) = y @ [10] \<and> (\<forall>c\<in>set y. c \<noteq> 10 \<and> c \<noteq> 13) \<and>
             strip (y @ [10]) = y \<and> split_ws y = code # words"
proof -
  let ?y = "code @ 32 # join_sp words"
  from assms have code: "plain_token code" and ne: "words \<noteq> []" and ws: "list_all plain_token words"
    by (simp_all add: plain_item_def)
  have w: "write_line (code, words) = ?y @ [10]"
    by (simp add: write_line_def)
  have nsp: "\<not> is_space c" if "c \<in> set code \<or> c \<in> \<Union> (set ` set words)" for c
    using that code ws by (auto simp add: list_all_iff dest: plain_tokenD(2))
  have chars: "\<forall>c\<in>set ?y. c \<noteq> 10 \<and> c \<noteq> 13"
  proof
    fix c assume "c \<in> set ?y"
    then have "c = 32 \<or> c \<in> set code \<or> c \<in> \<Union> (set ` set words)"
      using set_join_sp [of words] by auto
    then consider "c = 32" | "\<not> is_space c"
      using nsp [of c] by blast
    then show "c \<noteq> 10 \<and> c \<noteq> 13"
      by cases (auto simp add: is_space_def)
  qed
  have hd: "\<not> is_space (hd ?y)"
    using code by (cases code) (auto simp add: plain_token_def)
  have "last words \<in> set words" using ne by simp
  then have lw: "plain_token (last words)" using ws by (simp add: list_all_iff)
  have "last ?y = last (last words)"
    using join_sp_last [OF ne ws] by simp
  moreover have "last (last words) \<in> set (last words)"
    using lw by (simp add: plain_tokenD(1))
  ultimately have lst: "\<not> is_space (last ?y)"
    using lw by (simp add: plain_tokenD(2))
  have st: "strip (?y @ [10]) = ?y"
    by (rule strip_line) (use hd lst in simp_all)
  have "split_on is_space ?y = code # split_on is_space (join_sp words)"
    using code by (intro split_on_append) (auto simp add: is_space_32 dest: plain_tokenD(2))
  then have "split_on is_space ?y = code # words"
    by (simp add: split_on_join [OF ne ws])
  moreover have "filter (\<lambda>w. w \<noteq> []) (code # words) = code # words"
    using code ws by (auto simp add: list_all_iff filter_id_conv dest: plain_tokenD(1))
  ultimately have sp: "split_ws ?y = code # words"
    by (simp add: split_ws_def)
  from w chars st sp show ?thesis by blast
qed

lemma load_line_write_line:
  assumes "plain_item (code, words)"
  shows "load_line (write_line (code, words)) data = AList.update code words data"
proof -
  from write_line_plain [OF assms] obtain y where
    "write_line (code, words) = y @ [10]" "strip (y @ [10]) = y" "split_ws y = code # words"
    by blast
  moreover from assms have "words \<noteq> []" by (simp add: plain_item_def)
  ultimately show ?thesis
    by (cases words) (simp_all add: load_line_def)
qed

lemma file_lines_write:
  "list_all plain_item items \<Longrightarrow>
   file_lines (concat (map write_line items)) = map write_line items"
proof (induction items)
  case Nil
  then show ?case by simp
next
  case (Cons item items)
  obtain code words where i: "item = (code, words)" by (cases item)
  with Cons.prems have "plain_item (code, words)" by simp
  from write_line_plain [OF this] obtain y where
    y: "write_line (code, words) = y @ [10]" "\<forall>c\<in>set y. c \<noteq> 10 \<and> c \<noteq> 13"
    by blast
  have "file_lines (y @ 10 # concat (map write_line items))
          = (y @ [10]) # file_lines (concat (map write_line items))"
    by (rule file_lines_line [OF y(2)])
  with Cons i y(1) show ?case by simp
qed

lemma fold_load_write:
  "list_all plain_item items \<Longrightarrow>
   fold load_line (map write_line items) data = fold (\<lambda>(code, words). AList.update code words) items data"
proof (induction items arbitrary: data)
  case Nil
  then show ?case by simp
next
  case (Cons item items)
  obtain code words where i: "item = (code, words)" by (cases item)
  with Cons.prems have p: "plain_item (code, words)" by simp
  show ?case
    using Cons i by (simp add: load_line_write_line [OF p])
qed

lemma update_fresh: "k \<notin> fst ` set al \<Longrightarrow> AList.update k v al = al @ [(k, v)]"
  by (induction al) auto

lemma fold_update_distinct:
  "distinct (map fst (data @ items)) \<Longrightarrow>
   fold (\<lambda>(code, words). AList.update code words) items data = data @ items"
proof (induction items arbitrary: data)
  case Nil
  then show ?case by simp
next
  case (Cons item items)
  obtain code words where i: "item = (code, words)" by (cases item)
  from Cons.prems i have fresh: "code \<notin> fst ` set data" by auto
  from Cons.prems i have "distinct (map fst ((data @ [(code, words)]) @ items))" by simp
  from Cons.IH [OF this] show ?case
    by (simp add: i update_fresh [OF fresh])
qed

lemma distinct_keys_sort_key:
  "distinct (map fst data) \<Longrightarrow> distinct (map fst (sort_key fst data))"
  by (simp add: distinct_map)

lemma write_line_encodable:
  assumes "encodable_item (code, words)"
  shows "list_all utf8_encodable (write_line (code, words))"
proof -
  from assms have c: "\<forall>x\<in>set code. utf8_encodable x"
    and w: "\<forall>x\<in>\<Union> (set ` set words). utf8_encodable x"
    by (auto simp add: encodable_item_def list_all_iff)
  have "utf8_encodable x" if "x \<in> set (join_sp words)" for x
  proof -
    from that set_join_sp [of words] have "x = 32 \<or> x \<in> \<Union> (set ` set words)" by auto
    with w show ?thesis by (auto simp add: utf8_encodable_def)
  qed
  with c show ?thesis
    by (auto simp add: write_line_def list_all_iff utf8_encodable_def)
qed

lemma write_items_all:
  "list_all plain_item items \<Longrightarrow> list_all encodable_item items \<Longrightarrow>
   write_items items written = (written @ concat (map write_line items), None)"
proof (induction items arbitrary: written)
  case Nil
  then show ?case by simp
next
  case (Cons item items)
  obtain code words where i: "item = (code, words)" by (cases item)
  from Cons.prems i have ne: "words \<noteq> []" and enc: "encodable_item (code, words)"
    by (simp_all add: plain_item_def)
  from Cons.prems have rest: "list_all plain_item items" "list_all encodable_item items"
    by simp_all
  show ?case
    unfolding i
    by (simp add: ne write_line_encodable [OF enc] Cons.IH [OF rest])
qed

text \<open>
  Claim C8 as stated fails on a dictionary with a word that UTF-8 cannot encode. The
  codes \<open>ab\<close>, \<open>cd\<close>, \<open>ef\<close> with the words \<open>x\<close>, the lone surrogate U+D800 and
  \<open>y\<close> are non-empty strings without whitespace, in non-empty lists; the write stops
  at the second line with \<open>UnicodeEncodeError\<close>, the file holds the first line only,
  and loading it gives a dictionary without \<open>cd\<close> and \<open>ef\<close>.
\<close>

theorem write_load_roundtrip_counterexample:
  "distinct (map fst ([([97, 98], [[120]]), ([99, 100], [[55296]]), ([101, 102], [[121]])] :: ciku_dict)) \<and>
   list_all plain_item [([97, 98], [[120]]), ([99, 100], [[55296]]), ([101, 102], [[121]])] \<and>
   write_ciku_structured [([97, 98], [[120]]), ([99, 100], [[55296]]), ([101, 102], [[121]])]
     = ([97, 98, 32, 120, 10], Some UnicodeEncodeError) \<and>
   load_ciku_structured (Some (fst (write_ciku_structured
       [([97, 98], [[120]]), ([99, 100], [[55296]]), ([101, 102], [[121]])])))
     = [([97, 98], [[120]])] \<and>
   map_of (load_ciku_structured (Some (fst (write_ciku_structured
       [([97, 98], [[120]]), ([99, 100], [[55296]]), ([101, 102], [[121]])])))) [99, 100]
     \<noteq> map_of ([([97, 98], [[120]]), ([99, 100], [[55296]]), ([101, 102], [[121]])] :: ciku_dict)
          [99, 100]"
  by (simp add: plain_item_def plain_token_def is_space_def write_ciku_structured_def
        write_line_def utf8_encodable_def load_ciku_structured_def load_line_def strip_def
        split_ws_def)

text \<open>
  Claim C8, amended. For a word dictionary whose codes and words are non-empty strings
  without whitespace that hold only code points UTF-8 encodes (no surrogate), and whose
  lists are all non-empty, writing it (one line per code, codes in ascending order,
  words joined by spaces in their stored order) raises no error, and loading the file
  gives a dictionary with the same codes and the same lists in the same order: the
  loaded dictionary is the original with its codes in ascending order. The keys of a
  dict are distinct.
\<close>

theorem write_load_roundtrip:
  assumes "distinct (map fst data)" and "list_all plain_item data"
    and "list_all encodable_item data"
  shows "snd (write_ciku_structured data) = None \<and>
         load_ciku_structured (Some (fst (write_ciku_structured data))) = sort_key fst data \<and>
         map_of (load_ciku_structured (Some (fst (write_ciku_structured data)))) = map_of data"
proof -
  let ?items = "sort_key fst data"
  have p: "list_all plain_item ?items"
    using assms(2) by (simp add: list_all_iff)
  have e: "list_all encodable_item ?items"
    using assms(3) by (simp add: list_all_iff)
  have d: "distinct (map fst ([] @ ?items))"
    using assms(1) by (simp add: distinct_keys_sort_key)
  have w: "write_ciku_structured data = (concat (map write_line ?items), None)"
    unfolding write_ciku_structured_def using write_items_all [OF p e, of "[]"] by simp
  have "load_ciku_structured (Some (fst (write_ciku_structured data)))
          = fold load_line (map write_line ?items) []"
    by (simp add: w load_ciku_structured_def file_lines_write [OF p])
  also have "\<dots> = fold (\<lambda>(code, words). AList.update code words) ?items []"
    by (rule fold_load_write [OF p])
  also have "\<dots> = [] @ ?items"
    by (rule fold_update_distinct [OF d])
  finally have eq: "load_ciku_structured (Some (fst (write_ciku_structured data))) = ?items"
    by simp
  have "map_of ?items = map_of data"
    using assms(1) by (simp add: map_of_inject_set distinct_keys_sort_key)
  with eq w show ?thesis by simp
qed

text \<open>A dictionary of two codes, stored in descending order of the codes.\<close>

theorem write_load_roundtrip_witness:
  "snd (write_ciku_structured [([122], [[20013], [20320]]), ([97, 98], [[22909, 20320]])]) = None \<and>
   load_ciku_structured (Some (fst (write_ciku_structured
     [([122], [[20013], [20320]]), ([97, 98], [[22909, 20320]])])))
   = [([97, 98], [[22909, 20320]]), ([122], [[20013], [20320]])]"
  using write_load_roundtrip [of "[([122], [[20013], [20320]]), ([97, 98], [[22909, 20320]])]"]
  by (simp add: plain_item_def plain_token_def is_space_def encodable_item_def utf8_encodable_def)

end
